theory Spec2Isabelle
  imports Main "HOL-Library.Word"
begin

unbundle bit_operations_syntax

section \<open>The encryption codec\<close>

text \<open>
  The module \<^verbatim>\<open>util/encryption\<close> turns a JSON document into an encrypted buffer
  and back. A JavaScript string is represented by the bytes of its UTF-8 encoding (an
  Isabelle \<^typ>\<open>string\<close> is a list of 8-bit characters), a \<^verbatim>\<open>Buffer\<close> by a list of
  bytes. \<^verbatim>\<open>Buffer.from(s)\<close> yields the bytes of \<open>s\<close> and \<^verbatim>\<open>buf.toString()\<close> reads
  bytes back as characters, one for one; the runtime's replacement of malformed UTF-8
  is left to the JSON parser, which only ever sees the part after the marker.
\<close>

type_synonym byte = "8 word"
type_synonym Buffer = "byte list"

subsection \<open>SHA-224 and SHA-256\<close>

text \<open>
  \<^verbatim>\<open>sha224\<close> and \<^verbatim>\<open>sha256\<close> are imported from the package \<^verbatim>\<open>js-sha256\<close>: the
  hash functions of FIPS 180-4 over the UTF-8 bytes of a string, printed as lowercase
  hexadecimal digits. A 32-bit word is a natural number below \<open>2 ^ 32\<close>, with the
  reduction modulo \<open>2 ^ 32\<close> written out, so that the simplifier computes digests.
\<close>

type_synonym word32 = nat
type_synonym sha_state =
  "word32 \<times> word32 \<times> word32 \<times> word32 \<times> word32 \<times> word32 \<times> word32 \<times> word32"

definition K256 :: "word32 list" where
  "K256 =
    [1116352408, 1899447441, 3049323471, 3921009573, 961987163, 1508970993, 2453635748, 2870763221,
     3624381080, 310598401, 607225278, 1426881987, 1925078388, 2162078206, 2614888103, 3248222580,
     3835390401, 4022224774, 264347078, 604807628, 770255983, 1249150122, 1555081692, 1996064986,
     2554220882, 2821834349, 2952996808, 3210313671, 3336571891, 3584528711, 113926993, 338241895,
     666307205, 773529912, 1294757372, 1396182291, 1695183700, 1986661051, 2177026350, 2456956037,
     2730485921, 2820302411, 3259730800, 3345764771, 3516065817, 3600352804, 4094571909, 275423344,
     430227734, 506948616, 659060556, 883997877, 958139571, 1322822218, 1537002063, 1747873779,
     1955562222, 2024104815, 2227730452, 2361852424, 2428436474, 2756734187, 3204031479, 3329325298]"

definition H256 :: sha_state where
  "H256 = (1779033703, 3144134277, 1013904242, 2773480762, 1359893119, 2600822924, 528734635, 1541459225)"

definition H224 :: sha_state where
  "H224 = (3238371032, 914150663, 812702999, 4144912697, 4290775857, 1750603025, 1694076839, 3204075428)"

definition add32 :: "word32 \<Rightarrow> word32 \<Rightarrow> word32" where
  "add32 x y = (x + y) mod 4294967296"

definition rotr :: "nat \<Rightarrow> word32 \<Rightarrow> word32" where
  "rotr n x = x div 2 ^ n + (x mod 2 ^ n) * 2 ^ (32 - n)"

definition Ch :: "word32 \<Rightarrow> word32 \<Rightarrow> word32 \<Rightarrow> word32" where
  "Ch x y z = (x AND y) XOR ((x XOR 4294967295) AND z)"

definition Maj :: "word32 \<Rightarrow> word32 \<Rightarrow> word32 \<Rightarrow> word32" where
  "Maj x y z = (x AND y) XOR (x AND z) XOR (y AND z)"

definition Sigma0 :: "word32 \<Rightarrow> word32" where
  "Sigma0 x = rotr 2 x XOR rotr 13 x XOR rotr 22 x"

definition Sigma1 :: "word32 \<Rightarrow> word32" where
  "Sigma1 x = rotr 6 x XOR rotr 11 x XOR rotr 25 x"

definition sigma0 :: "word32 \<Rightarrow> word32" where
  "sigma0 x = rotr 7 x XOR rotr 18 x XOR (x div 2 ^ 3)"

definition sigma1 :: "word32 \<Rightarrow> word32" where
  "sigma1 x = rotr 17 x XOR rotr 19 x XOR (x div 2 ^ 10)"

definition be_bytes :: "nat \<Rightarrow> nat list" where
  "be_bytes v = map (\<lambda>s. (v div 2 ^ s) mod 256) [56, 48, 40, 32, 24, 16, 8, 0]"

definition sha_pad :: "nat list \<Rightarrow> nat list" where
  "sha_pad msg =
     msg @ [128] @ replicate ((119 - length msg mod 64) mod 64) 0 @ be_bytes (8 * length msg)"

fun be_words :: "nat list \<Rightarrow> word32 list" where
  "be_words (a # b # c # d # rest) = (a * 16777216 + b * 65536 + c * 256 + d) # be_words rest"
| "be_words _ = []"

definition next_w :: "word32 list \<Rightarrow> word32" where
  "next_w w = add32 (add32 (add32 (sigma1 (w ! 14)) (w ! 9)) (sigma0 (w ! 1))) (w ! 0)"

fun sha_round :: "sha_state \<Rightarrow> word32 \<Rightarrow> word32 \<Rightarrow> sha_state" where
  "sha_round (a, b, c, d, e, f, g, h) k w =
     (let t1 = add32 (add32 (add32 (add32 h (Sigma1 e)) (Ch e f g)) k) w;
          t2 = add32 (Sigma0 a) (Maj a b c)
      in (add32 t1 t2, a, b, c, add32 d t1, e, f, g))"

fun sha_rounds :: "word32 list \<Rightarrow> sha_state \<Rightarrow> word32 list \<Rightarrow> sha_state" where
  "sha_rounds [] s w = s"
| "sha_rounds (k # ks) s w = sha_rounds ks (sha_round s k (hd w)) (tl w @ [next_w w])"

fun add_state :: "sha_state \<Rightarrow> sha_state \<Rightarrow> sha_state" where
  "add_state (a, b, c, d, e, f, g, h) (a', b', c', d', e', f', g', h') =
     (add32 a a', add32 b b', add32 c c', add32 d d', add32 e e', add32 f f', add32 g g', add32 h h')"

definition sha_block :: "sha_state \<Rightarrow> word32 list \<Rightarrow> sha_state" where
  "sha_block hs ws = add_state hs (sha_rounds K256 hs ws)"

fun sha_blocks :: "sha_state \<Rightarrow> word32 list \<Rightarrow> sha_state" where
  "sha_blocks hs ws =
     (if length ws < 16 then hs else sha_blocks (sha_block hs (take 16 ws)) (drop 16 ws))"

declare sha_blocks.simps [simp del]

definition hex_digit :: "nat \<Rightarrow> char" where
  "hex_digit n = ''0123456789abcdef'' ! (n mod 16)"

definition hex32 :: "word32 \<Rightarrow> string" where
  "hex32 w = map (\<lambda>s. hex_digit (w div 2 ^ s)) [28, 24, 20, 16, 12, 8, 4, 0]"

fun state_words :: "sha_state \<Rightarrow> word32 list" where
  "state_words (a, b, c, d, e, f, g, h) = [a, b, c, d, e, f, g, h]"

definition sha224 :: "string \<Rightarrow> string" where
  "sha224 message =
     concat (map hex32 (take 7 (state_words (sha_blocks H224 (be_words (sha_pad (map of_char message)))))))"

definition sha256 :: "string \<Rightarrow> string" where
  "sha256 message =
     concat (map hex32 (state_words (sha_blocks H256 (be_words (sha_pad (map of_char message))))))"

subsection \<open>encrypt and decrypt\<close>

text \<open>
  What a JavaScript call yields that may throw or return \<^verbatim>\<open>null\<close>: the exception,
  \<^verbatim>\<open>null\<close>, or a value.
\<close>

datatype js_error = SyntaxError | TypeError | RangeError

datatype 'a js_value = Throws js_error | Null | Value 'a

text \<open>
  \<^verbatim>\<open>sha224(`photos.${key}.heerkirov.com`)\<close> is the keystream,
  \<^verbatim>\<open>sha256(`photos.${key}.heerkirov.com`)\<close> the flag.
\<close>

definition turnToPasswordSequence :: "string \<Rightarrow> string" where
  "turnToPasswordSequence key = sha224 (''photos.'' @ key @ ''.heerkirov.com'')"

definition turnToFlagSequence :: "string \<Rightarrow> string" where
  "turnToFlagSequence key = sha256 (''photos.'' @ key @ ''.heerkirov.com'')"

definition turnToBinary :: "string \<Rightarrow> Buffer" where
  "turnToBinary key = map of_char key"

definition turnToString :: "Buffer \<Rightarrow> string" where
  "turnToString binary = map (\<lambda>b. char_of (unat b)) binary"

text \<open>
  \<^verbatim>\<open>loopChange(arr, groupSize, step)\<close>: byte \<open>i\<close> of the result is byte \<open>goal\<close> of
  \<open>arr\<close>, where \<open>goal\<close> starts as \<open>i - step\<close> and is brought into the group of \<open>i\<close>,
  from \<open>head\<close> up to but not including \<open>tail\<close>, by the two loops
  \<^verbatim>\<open>while(goal < head) goal += tail - head\<close> and
  \<^verbatim>\<open>while(goal >= tail) goal -= tail - head\<close>. Nothing in the loops bounds their
  number of steps, so each is a partial function and \<open>loopChange\<close> may return no
  buffer at all; that it does return one for the group size 8 of the codec is proved
  below. A read outside \<open>arr\<close> stores 0, as \<^verbatim>\<open>ret[i] = undefined\<close> does.
\<close>

partial_function (option) raise_goal :: "int \<Rightarrow> int \<Rightarrow> int \<Rightarrow> int option" where
  "raise_goal goal head tail =
     (if goal < head then raise_goal (goal + (tail - head)) head tail else Some goal)"

partial_function (option) lower_goal :: "int \<Rightarrow> int \<Rightarrow> int \<Rightarrow> int option" where
  "lower_goal goal head tail =
     (if goal \<ge> tail then lower_goal (goal - (tail - head)) head tail else Some goal)"

declare raise_goal.simps [code] lower_goal.simps [code]

definition loopChange_byte :: "Buffer \<Rightarrow> nat \<Rightarrow> int \<Rightarrow> nat \<Rightarrow> byte option" where
  "loopChange_byte arr groupSize step i =
     (let head = (i div groupSize) * groupSize;
          tail = head + groupSize;
          tail = (if tail > length arr then length arr else tail);
          goal = int i - step
      in case raise_goal goal (int head) (int tail) of
           None \<Rightarrow> None
         | Some goal \<Rightarrow>
             (case lower_goal goal (int head) (int tail) of
                None \<Rightarrow> None
              | Some goal \<Rightarrow>
                  Some (if 0 \<le> goal \<and> nat goal < length arr then arr ! nat goal else 0)))"

definition loopChange :: "Buffer \<Rightarrow> nat \<Rightarrow> int \<Rightarrow> Buffer option" where
  "loopChange arr groupSize step =
     those (map (loopChange_byte arr groupSize step) [0..<length arr])"

text \<open>
  \<^verbatim>\<open>xor(data, key)\<close>: the loop carries \<open>j\<close> along the key and starts it again at 0
  at the end of the key. With an empty key \<^verbatim>\<open>key[j]\<close> is undefined and the byte is
  kept (\<^verbatim>\<open>byte ^ undefined\<close> is \<^verbatim>\<open>byte\<close>).
\<close>

fun xor_loop :: "Buffer \<Rightarrow> Buffer \<Rightarrow> nat \<Rightarrow> Buffer" where
  "xor_loop [] key j = []"
| "xor_loop (byte # data) key j =
     (let j = (if j \<ge> length key then 0 else j);
          byte1 = (if j < length key then key ! j else 0)
      in (byte XOR byte1) # xor_loop data key (j + 1))"

definition xor_buffer :: "Buffer \<Rightarrow> Buffer \<Rightarrow> Buffer" where
  "xor_buffer data key = xor_loop data key 0"

text \<open>
  \<^verbatim>\<open>JSON.stringify\<close> and \<^verbatim>\<open>JSON.parse\<close> belong to the runtime and are parameters
  of \<open>encrypt\<close> and \<open>decrypt\<close>; the type \<open>'d\<close> of documents is theirs. The comparison
  of \<^verbatim>\<open>data.slice(0, prefix.length)\<close> with the prefix is a comparison of the first 70
  bytes: the prefix is ASCII.
\<close>

definition encrypt :: "('d \<Rightarrow> string) \<Rightarrow> string \<Rightarrow> 'd \<Rightarrow> Buffer option" where
  "encrypt JSON_stringify key json =
     (let passwd = turnToPasswordSequence key;
          flag = turnToFlagSequence key;
          passwdBuf = turnToBinary passwd;
          data = ''DATA:'' @ flag @ '':'' @ JSON_stringify json
      in case loopChange (turnToBinary data) 8 1 of
           None \<Rightarrow> None
         | Some dataBuf \<Rightarrow> Some (xor_buffer dataBuf passwdBuf))"

definition decrypt :: "(string \<Rightarrow> 'd js_value) \<Rightarrow> string \<Rightarrow> Buffer \<Rightarrow> 'd js_value option" where
  "decrypt JSON_parse key buf =
     (let passwd = turnToPasswordSequence key;
          flag = turnToFlagSequence key;
          passwdBuf = turnToBinary passwd;
          decodeBuf = xor_buffer buf passwdBuf
      in case loopChange decodeBuf 8 (- 1) of
           None \<Rightarrow> None
         | Some plain \<Rightarrow>
             (let data = turnToString plain;
                  prefix = ''DATA:'' @ flag @ '':''
              in if length data \<ge> length prefix \<and> take (length prefix) data = prefix
                 then Some (JSON_parse (drop (length prefix) data))
                 else Some Null))"

subsection \<open>Rotation within groups and its inverse\<close>

lemma raise_goal_stay: "\<not> goal < head \<Longrightarrow> raise_goal goal head tail = Some goal"
  by (subst raise_goal.simps) simp

lemma raise_goal_once:
  "goal < head \<Longrightarrow> \<not> goal + (tail - head) < head \<Longrightarrow>
   raise_goal goal head tail = Some (goal + (tail - head))"
  by (subst raise_goal.simps) (simp add: raise_goal_stay)

lemma lower_goal_stay: "goal < tail \<Longrightarrow> lower_goal goal head tail = Some goal"
  by (subst lower_goal.simps) simp

lemma lower_goal_once:
  "goal \<ge> tail \<Longrightarrow> goal - (tail - head) < tail \<Longrightarrow>
   lower_goal goal head tail = Some (goal - (tail - head))"
  by (subst lower_goal.simps) (simp add: lower_goal_stay)

definition group_head :: "nat \<Rightarrow> nat \<Rightarrow> nat" where
  "group_head g i = (i div g) * g"

definition group_tail :: "nat \<Rightarrow> nat \<Rightarrow> nat \<Rightarrow> nat" where
  "group_tail n g i = (if group_head g i + g > n then n else group_head g i + g)"

definition rot_src :: "nat \<Rightarrow> nat \<Rightarrow> nat \<Rightarrow> nat" where
  "rot_src n g i = (if i = group_head g i then group_tail n g i - 1 else i - 1)"

definition unrot_src :: "nat \<Rightarrow> nat \<Rightarrow> nat \<Rightarrow> nat" where
  "unrot_src n g i = (if i + 1 = group_tail n g i then group_head g i else i + 1)"

lemma group_head_le: "group_head g i \<le> i"
  by (simp add: group_head_def)

lemma group_tail_gt: "0 < g \<Longrightarrow> i < n \<Longrightarrow> i < group_tail n g i"
  using dividend_less_div_times [of g i]
  by (simp add: group_tail_def group_head_def add.commute)

lemma group_tail_le: "group_tail n g i \<le> n"
  by (simp add: group_tail_def)

lemma group_head_same:
  "0 < g \<Longrightarrow> group_head g i \<le> j \<Longrightarrow> j < group_head g i + g \<Longrightarrow> group_head g j = group_head g i"
  unfolding group_head_def
  by (simp add: div_nat_eqI mult.commute)

lemma group_tail_same:
  "0 < g \<Longrightarrow> group_head g i \<le> j \<Longrightarrow> j < group_head g i + g \<Longrightarrow> group_tail n g j = group_tail n g i"
  using group_head_same [of g i j] by (simp add: group_tail_def)

lemma those_map_Some: "those (map (\<lambda>i. Some (f i)) xs) = Some (map f xs)"
  by (induction xs) simp_all

lemma loopChange_byte_groups:
  "loopChange_byte arr g step i =
     (case raise_goal (int i - step) (int (group_head g i)) (int (group_tail (length arr) g i)) of
        None \<Rightarrow> None
      | Some goal \<Rightarrow>
          (case lower_goal goal (int (group_head g i)) (int (group_tail (length arr) g i)) of
             None \<Rightarrow> None
           | Some goal \<Rightarrow>
               Some (if 0 \<le> goal \<and> nat goal < length arr then arr ! nat goal else 0)))"
  by (simp only: loopChange_byte_def group_head_def group_tail_def Let_def)

lemma loopChange_byte_result:
  assumes "raise_goal (int i - step) (int (group_head g i)) (int (group_tail (length arr) g i)) = Some a"
    and "lower_goal a (int (group_head g i)) (int (group_tail (length arr) g i)) = Some (int k)"
    and "k < length arr"
  shows "loopChange_byte arr g step i = Some (arr ! k)"
  using assms by (simp add: loopChange_byte_groups)

lemma loopChange_byte_right:
  assumes "0 < g" "i < length arr"
  shows "loopChange_byte arr g 1 i = Some (arr ! rot_src (length arr) g i)"
proof -
  let ?h = "group_head g i" and ?t = "group_tail (length arr) g i"
  have h: "?h \<le> i" by (rule group_head_le)
  have t: "i < ?t" using assms by (rule group_tail_gt)
  have n: "?t \<le> length arr" by (rule group_tail_le)
  show ?thesis
  proof (cases "?h = i")
    case True
    have a: "raise_goal (int i - 1) (int ?h) (int ?t) = Some (int i - 1 + (int ?t - int ?h))"
      using True t by (intro raise_goal_once) auto
    have e: "int (?t - 1) = int i - 1 + (int ?t - int ?h)"
      using True t by auto
    have up: "raise_goal (int i - 1) (int ?h) (int ?t) = Some (int (?t - 1))"
      by (simp only: e a)
    have down: "lower_goal (int (?t - 1)) (int ?h) (int ?t) = Some (int (?t - 1))"
      using t by (intro lower_goal_stay) auto
    have "loopChange_byte arr g 1 i = Some (arr ! (?t - 1))"
      using up down by (rule loopChange_byte_result) (use t n in auto)
    then show ?thesis using True by (simp add: rot_src_def)
  next
    case False
    then have lt: "?h < i" using h by simp
    have a: "raise_goal (int i - 1) (int ?h) (int ?t) = Some (int i - 1)"
      using lt by (intro raise_goal_stay) auto
    have e: "int (i - 1) = int i - 1" using lt by auto
    have up: "raise_goal (int i - 1) (int ?h) (int ?t) = Some (int (i - 1))"
      by (simp only: e a)
    have down: "lower_goal (int (i - 1)) (int ?h) (int ?t) = Some (int (i - 1))"
      using t by (intro lower_goal_stay) auto
    have "loopChange_byte arr g 1 i = Some (arr ! (i - 1))"
      using up down by (rule loopChange_byte_result) (use assms in auto)
    then show ?thesis using False by (simp add: rot_src_def)
  qed
qed

lemma loopChange_byte_left:
  assumes "0 < g" "i < length arr"
  shows "loopChange_byte arr g (- 1) i = Some (arr ! unrot_src (length arr) g i)"
proof -
  let ?h = "group_head g i" and ?t = "group_tail (length arr) g i"
  have h: "?h \<le> i" by (rule group_head_le)
  have t: "i < ?t" using assms by (rule group_tail_gt)
  have n: "?t \<le> length arr" by (rule group_tail_le)
  have "raise_goal (int i + 1) (int ?h) (int ?t) = Some (int i + 1)"
    using h by (intro raise_goal_stay) auto
  then have up: "raise_goal (int i - (- 1)) (int ?h) (int ?t) = Some (int i + 1)"
    by simp
  show ?thesis
  proof (cases "?t = i + 1")
    case True
    have a: "lower_goal (int i + 1) (int ?h) (int ?t) = Some (int i + 1 - (int ?t - int ?h))"
      using True h by (intro lower_goal_once) auto
    have e: "int i + 1 - (int ?t - int ?h) = int ?h"
      using True by auto
    have down: "lower_goal (int i + 1) (int ?h) (int ?t) = Some (int ?h)"
      using a by (simp only: e)
    have "loopChange_byte arr g (- 1) i = Some (arr ! ?h)"
      using up down by (rule loopChange_byte_result) (use h assms in auto)
    then show ?thesis using True by (simp add: unrot_src_def)
  next
    case False
    then have lt: "i + 1 < ?t" using t by simp
    have a: "lower_goal (int i + 1) (int ?h) (int ?t) = Some (int i + 1)"
      using lt by (intro lower_goal_stay) auto
    have e: "int (i + 1) = int i + 1" by simp
    have down: "lower_goal (int i + 1) (int ?h) (int ?t) = Some (int (i + 1))"
      by (simp only: e a)
    have "loopChange_byte arr g (- 1) i = Some (arr ! (i + 1))"
      using up down by (rule loopChange_byte_result) (use lt n in auto)
    then show ?thesis using False by (simp add: unrot_src_def)
  qed
qed

lemma loopChange_right:
  assumes "0 < g"
  shows "loopChange arr g 1 = Some (map (\<lambda>i. arr ! rot_src (length arr) g i) [0..<length arr])"
proof -
  have "map (loopChange_byte arr g 1) [0..<length arr]
      = map (\<lambda>i. Some (arr ! rot_src (length arr) g i)) [0..<length arr]"
    by (rule map_cong [OF refl]) (simp add: loopChange_byte_right assms)
  then show ?thesis
    unfolding loopChange_def by (simp only: those_map_Some)
qed

lemma loopChange_left:
  assumes "0 < g"
  shows "loopChange arr g (- 1) = Some (map (\<lambda>i. arr ! unrot_src (length arr) g i) [0..<length arr])"
proof -
  have "map (loopChange_byte arr g (- 1)) [0..<length arr]
      = map (\<lambda>i. Some (arr ! unrot_src (length arr) g i)) [0..<length arr]"
    by (rule map_cong [OF refl]) (simp add: loopChange_byte_left assms)
  then show ?thesis
    unfolding loopChange_def by (simp only: those_map_Some)
qed

lemma unrot_src_less: "0 < g \<Longrightarrow> i < n \<Longrightarrow> unrot_src n g i < n"
  using group_head_le [of g i] group_tail_gt [of g i n] group_tail_le [of n g i]
  by (auto simp: unrot_src_def)

lemma rot_unrot: 
  assumes "0 < g" "i < n"
  shows "rot_src n g (unrot_src n g i) = i"
proof -
  let ?h = "group_head g i" and ?t = "group_tail n g i"
  have h: "?h \<le> i" by (rule group_head_le)
  have t: "i < ?t" using assms by (rule group_tail_gt)
  have tg: "?t \<le> ?h + g" by (simp add: group_tail_def)
  show ?thesis
  proof (cases "?t = i + 1")
    case True
    then have u: "unrot_src n g i = ?h" by (simp add: unrot_src_def)
    have "group_head g ?h = ?h" using assms group_head_same [of g i ?h] by simp
    moreover have "group_tail n g ?h = ?t" using assms group_tail_same [of g i ?h n] by simp
    ultimately show ?thesis using True u by (simp add: rot_src_def)
  next
    case False
    then have u: "unrot_src n g i = i + 1" by (simp add: unrot_src_def)
    have "i + 1 < ?h + g" using False t tg by simp
    then have "group_head g (i + 1) = ?h" using assms h group_head_same [of g i "i + 1"] by simp
    then show ?thesis using u h by (simp add: rot_src_def)
  qed
qed

lemma loopChange_left_right:
  assumes "0 < g"
  shows "\<exists>r. loopChange arr g 1 = Some r \<and> length r = length arr \<and> loopChange r g (- 1) = Some arr"
proof -
  let ?n = "length arr"
  let ?r = "map (\<lambda>i. arr ! rot_src ?n g i) [0..<?n]"
  have "map (\<lambda>i. ?r ! unrot_src ?n g i) [0..<?n] = map (\<lambda>i. arr ! i) [0..<?n]"
    by (rule map_cong [OF refl]) (simp add: unrot_src_less rot_unrot assms)
  then have "loopChange ?r g (- 1) = Some arr"
    using assms by (simp add: loopChange_left map_nth)
  then show ?thesis using assms by (simp add: loopChange_right)
qed

lemma xor_loop_twice: "xor_loop (xor_loop data key j) key j = data"
  by (induction data arbitrary: j) (simp_all add: Let_def xor.assoc)

lemma length_xor_loop [simp]: "length (xor_loop data key j) = length data"
  by (induction data arbitrary: j) (simp_all add: Let_def)

lemma xor_buffer_twice: "xor_buffer (xor_buffer data key) key = data"
  by (simp add: xor_buffer_def xor_loop_twice)

lemma unat_of_char: "unat (of_char c :: byte) = of_char c"
proof -
  have "(of_char c :: byte) = of_nat (of_char c)" by (simp add: of_nat_of_char)
  moreover have "(of_char c :: nat) < 256" by simp
  ultimately show ?thesis by (simp add: unat_of_nat)
qed

lemma turnToString_turnToBinary: "turnToString (turnToBinary s) = s"
  by (simp add: turnToString_def turnToBinary_def unat_of_char comp_def)


subsection \<open>The digests are fixed-length hexadecimal strings\<close>



lemma length_hex32: "length (hex32 w) = 8"
  by (simp add: hex32_def)


lemma length_concat_hex32: "length (concat (map hex32 ws)) = 8 * length ws"
  by (induction ws) (simp_all add: length_hex32)


lemma length_state_words: "length (state_words s) = 8"
  by (induction s rule: state_words.induct) simp


lemma length_sha256: "length (sha256 m) = 64"
  by (simp add: sha256_def length_concat_hex32 length_state_words)




lemma length_turnToFlagSequence: "length (turnToFlagSequence key) = 64"
  by (simp add: turnToFlagSequence_def length_sha256)





subsection \<open>decrypt after encrypt\<close>

definition codec_prefix :: "string \<Rightarrow> string" where
  "codec_prefix key = ''DATA:'' @ turnToFlagSequence key @ '':''"

lemma length_codec_prefix: "length (codec_prefix key) = 70"
  by (simp add: codec_prefix_def length_turnToFlagSequence)

lemma encrypt_prefix:
  "encrypt JSON_stringify key json =
     (case loopChange (turnToBinary (codec_prefix key @ JSON_stringify json)) 8 1 of
        None \<Rightarrow> None
      | Some dataBuf \<Rightarrow> Some (xor_buffer dataBuf (turnToBinary (turnToPasswordSequence key))))"
  by (simp add: encrypt_def codec_prefix_def Let_def)

lemma decrypt_prefix:
  "decrypt JSON_parse key buf =
     (case loopChange (xor_buffer buf (turnToBinary (turnToPasswordSequence key))) 8 (- 1) of
        None \<Rightarrow> None
      | Some plain \<Rightarrow>
          if length (turnToString plain) \<ge> length (codec_prefix key)
             \<and> take (length (codec_prefix key)) (turnToString plain) = codec_prefix key
          then Some (JSON_parse (drop (length (codec_prefix key)) (turnToString plain)))
          else Some Null)"
  by (simp add: decrypt_def codec_prefix_def Let_def split: option.split)

lemma decrypt_encrypt:
  "\<exists>buf. encrypt JSON_stringify key json = Some buf
     \<and> decrypt JSON_parse key buf = Some (JSON_parse (JSON_stringify json))"
proof -
  let ?text = "codec_prefix key @ JSON_stringify json"
  let ?pw = "turnToBinary (turnToPasswordSequence key)"
  obtain r where r: "loopChange (turnToBinary ?text) 8 1 = Some r"
    and inv: "loopChange r 8 (- 1) = Some (turnToBinary ?text)"
    using loopChange_left_right [of 8 "turnToBinary ?text"] by auto
  have enc: "encrypt JSON_stringify key json = Some (xor_buffer r ?pw)"
    by (simp add: encrypt_prefix r)
  have "decrypt JSON_parse key (xor_buffer r ?pw) = Some (JSON_parse (JSON_stringify json))"
    by (simp add: decrypt_prefix xor_buffer_twice inv turnToString_turnToBinary)
  with enc show ?thesis by blast
qed

subsection \<open>Decrypting under another key\<close>



lemma length_xor_buffer: "length (xor_buffer data key) = length data"
  by (simp add: xor_buffer_def)







text \<open>A key with the keystream of another key but another flag is rejected by the flag.\<close>

lemma decrypt_other_flag:
  assumes enc: "encrypt JSON_stringify k json = Some buf"
    and pw: "turnToPasswordSequence k2 = turnToPasswordSequence k"
    and fl: "turnToFlagSequence k2 \<noteq> turnToFlagSequence k"
  shows "decrypt JSON_parse k2 buf = Some Null"
proof -
  let ?envelope = "codec_prefix k @ JSON_stringify json"
  let ?pw = "turnToBinary (turnToPasswordSequence k)"
  obtain r where r: "loopChange (turnToBinary ?envelope) 8 1 = Some r"
    and inv: "loopChange r 8 (- 1) = Some (turnToBinary ?envelope)"
    using loopChange_left_right [of 8 "turnToBinary ?envelope"] by auto
  from enc have buf: "buf = xor_buffer r ?pw"
    by (simp add: encrypt_prefix r)
  have plain: "loopChange (xor_buffer buf (turnToBinary (turnToPasswordSequence k2))) 8 (- 1)
      = Some (turnToBinary ?envelope)"
    by (simp add: buf pw xor_buffer_twice inv)
  have "codec_prefix k2 \<noteq> codec_prefix k"
    using fl by (simp add: codec_prefix_def)
  then have "take (length (codec_prefix k2)) ?envelope \<noteq> codec_prefix k2"
    by (simp add: length_codec_prefix)
  then show ?thesis
    by (simp add: decrypt_prefix plain turnToString_turnToBinary)
qed

text \<open>A file cut short of the 70 bytes of marker and flag is rejected, whatever the key.\<close>

lemma decrypt_truncated:
  assumes "length buf < 70"
  shows "decrypt JSON_parse k buf = Some Null"
proof -
  let ?dec = "xor_buffer buf (turnToBinary (turnToPasswordSequence k))"
  let ?plain = "map (\<lambda>i. ?dec ! unrot_src (length ?dec) 8 i) [0..<length ?dec]"
  have "loopChange ?dec 8 (- 1) = Some ?plain" by (simp add: loopChange_left)
  moreover have "length (turnToString ?plain) < length (codec_prefix k)"
    using assms by (simp add: turnToString_def length_xor_buffer length_codec_prefix)
  ultimately show ?thesis by (simp add: decrypt_prefix del: map_eq_conv)
qed

subsection \<open>Digests of concrete keys\<close>

lemma replicate_numeral: "replicate (numeral k) x = x # replicate (pred_numeral k) x"
  by (simp add: numeral_eq_Suc)

lemmas sha_eval = sha_pad_def be_bytes_def replicate_numeral H256_def H224_def K256_def
  sha_block_def next_w_def Sigma0_def Sigma1_def sigma0_def sigma1_def Ch_def Maj_def rotr_def
  hex32_def hex_digit_def sha_blocks.simps add32_def

text \<open>The test vector of FIPS 180-4 for the one-block message \<^verbatim>\<open>abc\<close>.\<close>

lemma sha256_abc:
  "sha256 ''abc'' = ''ba7816bf8f01cfea414140de5dae2223b00361a396177a9cb410ff61f20015ad''"
  by (simp add: sha256_def sha_eval)



subsection \<open>Round trip, rejection and determinism\<close>




text \<open>
  C10. \<open>encrypt\<close> takes the key and the document and nothing else: no nonce, salt or
  random source enters the model, because none enters the code. It always returns a
  buffer, and under one key two documents have the same ciphertext exactly when they have
  the same serialisation.
\<close>

theorem encrypt_deterministic:
  "encrypt JSON_stringify k d \<noteq> None
   \<and> (encrypt JSON_stringify k d1 = encrypt JSON_stringify k d2
        \<longleftrightarrow> JSON_stringify d1 = JSON_stringify d2)"
proof -
  obtain buf where "encrypt JSON_stringify k d = Some buf"
    using decrypt_encrypt [of JSON_stringify k d Value] by blast
  then have total: "encrypt JSON_stringify k d \<noteq> None" by simp
  have same: "encrypt JSON_stringify k d1 = encrypt JSON_stringify k d2"
    if "JSON_stringify d1 = JSON_stringify d2"
    using that by (simp add: encrypt_def)
  have "JSON_stringify d1 = JSON_stringify d2"
    if eq: "encrypt JSON_stringify k d1 = encrypt JSON_stringify k d2"
  proof -
    obtain b1 where e1: "encrypt JSON_stringify k d1 = Some b1"
      and r1: "decrypt Value k b1 = Some (Value (JSON_stringify d1))"
      using decrypt_encrypt [of JSON_stringify k d1 Value] by blast
    obtain b2 where e2: "encrypt JSON_stringify k d2 = Some b2"
      and r2: "decrypt Value k b2 = Some (Value (JSON_stringify d2))"
      using decrypt_encrypt [of JSON_stringify k d2 Value] by blast
    from eq e1 e2 have "b1 = b2" by simp
    with r1 r2 show ?thesis by simp
  qed
  with same total show ?thesis by blast
qed

section \<open>Block storage\<close>

text \<open>
  \<^verbatim>\<open>saveImageBuffer\<close> and \<^verbatim>\<open>loadImageBuffer\<close> of \<^verbatim>\<open>src/common/localEngine.ts\<close>
  cut a payload into blocks of \<^verbatim>\<open>BLOCK_SIZE\<close> bytes and keep
  \<^verbatim>\<open>BLOCK_IN_FILE\<close> blocks in each file of the storage folder. The file system is a
  map from file names to contents. What the runtime does is modelled as follows.
  \<^item> \<^verbatim>\<open>fs.write(fd, buffer, offset, length, position)\<close> puts \<open>length\<close> bytes of the
    buffer, from \<open>offset\<close> on, at \<open>position\<close> of the file, filling a gap with zeros;
    it throws a \<^verbatim>\<open>RangeError\<close> when \<open>offset + length\<close> goes beyond the buffer.
  \<^item> \<^verbatim>\<open>fs.read(fd, buf, offset, length, position)\<close> copies the bytes the file has
    at \<open>position\<close>, at most \<open>length\<close>, into \<open>buf\<close> at \<open>offset\<close>; a length of 0 does
    nothing, and a range beyond \<open>buf\<close> throws a \<^verbatim>\<open>RangeError\<close>.
  \<^item> Opening a file for appending creates it empty when it is missing, and the
    positions of later writes are honoured; reading from a missing file throws a
    \<^verbatim>\<open>TypeError\<close>, the descriptor being undefined.
  \<^item> The asynchronous operations complete in the order in which they were issued; the
    values passed to \<^verbatim>\<open>callback\<close>, one call for each file touched, are returned as a list.
\<close>

definition BLOCK_SIZE :: nat where
  "BLOCK_SIZE = 1024 * 64"

definition BLOCK_IN_FILE :: nat where
  "BLOCK_IN_FILE = 1024"

text \<open>\<^verbatim>\<open>(index + 0xa).toString(16)\<close>: lowercase hexadecimal digits, no leading zero.\<close>

function toString16 :: "nat \<Rightarrow> string" where
  "toString16 n = (if n < 16 then [hex_digit n] else toString16 (n div 16) @ [hex_digit (n mod 16)])"
  by pat_completeness auto
termination
  by (relation "measure id") auto

declare toString16.simps [simp del]

definition FILE_NAME :: "nat \<Rightarrow> string" where
  "FILE_NAME index = ''block-'' @ toString16 (index + 10) @ ''.dat''"

text \<open>
  One entry \<^verbatim>\<open>{id, block, size}\<close> of the object \<^verbatim>\<open>map\<close> that both functions build:
  the chunk number, the block within its file and the number of bytes. The object maps a
  file name to the array of its entries and is enumerated in the order in which the
  names were added.
\<close>

record chunk =
  chunk_id :: nat
  chunk_block :: nat
  chunk_size :: nat

type_synonym file_map = "(string \<times> chunk list) list"

fun map_put :: "file_map \<Rightarrow> string \<Rightarrow> chunk \<Rightarrow> file_map" where
  "map_put [] filename c = [(filename, [c])]"
| "map_put ((f, arr) # rest) filename c =
     (if f = filename then (f, arr @ [c]) # rest else (f, arr) # map_put rest filename c)"

text \<open>
  The loop over \<open>blocks\<close> that fills \<^verbatim>\<open>map\<close>, the same in both functions but for the
  total size, which is \<^verbatim>\<open>buffer.byteLength\<close> in one and \<^verbatim>\<open>size\<close> in the other.
\<close>

definition block_layout :: "string \<Rightarrow> nat list \<Rightarrow> nat \<Rightarrow> file_map" where
  "block_layout folder blocks size' =
     foldl (\<lambda>fileMap i.
        let block = blocks ! i;
            filename = folder @ ''/'' @ FILE_NAME (block div BLOCK_IN_FILE)
        in map_put fileMap filename
             \<lparr>chunk_id = i, chunk_block = block mod BLOCK_IN_FILE,
              chunk_size = (if i = length blocks - 1 then size' mod BLOCK_SIZE else BLOCK_SIZE)\<rparr>)
       [] [0..<length blocks]"

type_synonym files = "string \<rightharpoonup> Buffer"

definition fs_write :: "Buffer \<Rightarrow> Buffer \<Rightarrow> nat \<Rightarrow> nat \<Rightarrow> nat \<Rightarrow> js_error + Buffer" where
  "fs_write file buffer offset len position =
     (if offset + len \<le> length buffer
      then Inr (take position file @ replicate (position - length file) 0
                @ take len (drop offset buffer) @ drop (position + len) file)
      else Inl RangeError)"

definition fs_read :: "Buffer \<Rightarrow> Buffer \<Rightarrow> nat \<Rightarrow> nat \<Rightarrow> nat \<Rightarrow> js_error + Buffer" where
  "fs_read file buf offset len position =
     (if len = 0 then Inr buf
      else if offset + len \<le> length buf
      then (let got = take len (drop position file)
            in Inr (take offset buf @ got @ drop (offset + length got) buf))
      else Inl RangeError)"

text \<open>
  \<^verbatim>\<open>for(let i = 0; i < blockNum; ++i) blocks[i] = nextBlockIndex()\<close>: the allocator is
  a function on the state \<open>'s\<close> of whoever supplies it.
\<close>

fun allocate_blocks :: "('s \<Rightarrow> nat \<times> 's) \<Rightarrow> nat \<Rightarrow> 's \<Rightarrow> nat list \<times> 's" where
  "allocate_blocks nextBlockIndex 0 st = ([], st)"
| "allocate_blocks nextBlockIndex (Suc n) st =
     (let (b, st') = nextBlockIndex st;
          (bs, st'') = allocate_blocks nextBlockIndex n st'
      in (b # bs, st''))"

fun write_chunks :: "Buffer \<Rightarrow> Buffer \<Rightarrow> chunk list \<Rightarrow> js_error + Buffer" where
  "write_chunks file buffer [] = Inr file"
| "write_chunks file buffer (c # cs) =
     (case fs_write file buffer (chunk_id c * BLOCK_SIZE) (chunk_size c) (chunk_block c * BLOCK_SIZE) of
        Inl e \<Rightarrow> Inl e
      | Inr file' \<Rightarrow> write_chunks file' buffer cs)"

fun write_files :: "files \<Rightarrow> Buffer \<Rightarrow> file_map \<Rightarrow> nat list \<Rightarrow> js_error + files \<times> nat list list" where
  "write_files fs buffer [] blocks = Inr (fs, [])"
| "write_files fs buffer ((filename, mapBlock) # rest) blocks =
     (case write_chunks (case fs filename of None \<Rightarrow> [] | Some file \<Rightarrow> file) buffer mapBlock of
        Inl e \<Rightarrow> Inl e
      | Inr file' \<Rightarrow>
          (case write_files (fs(filename \<mapsto> file')) buffer rest blocks of
             Inl e \<Rightarrow> Inl e
           | Inr (fs', callbacks) \<Rightarrow> Inr (fs', blocks # callbacks)))"

text \<open>
  \<^verbatim>\<open>saveImageBuffer\<close> returns the state of the allocator, the block list and what the
  writes come to: an exception, or the files and the arguments of the callback.
\<close>

definition saveImageBuffer ::
  "string \<Rightarrow> Buffer \<Rightarrow> ('s \<Rightarrow> nat \<times> 's) \<Rightarrow> 's \<Rightarrow> files
    \<Rightarrow> 's \<times> nat list \<times> (js_error + files \<times> nat list list)" where
  "saveImageBuffer folder buffer nextBlockIndex st fs =
     (let blockNum = length buffer div BLOCK_SIZE + 1;
          (blocks, st') = allocate_blocks nextBlockIndex blockNum st;
          fileMap = block_layout folder blocks (length buffer)
      in (st', blocks, write_files fs buffer fileMap blocks))"

fun read_chunks :: "Buffer \<Rightarrow> Buffer \<Rightarrow> chunk list \<Rightarrow> js_error + Buffer" where
  "read_chunks file buf [] = Inr buf"
| "read_chunks file buf (c # cs) =
     (case fs_read file buf (chunk_id c * BLOCK_SIZE) (chunk_size c) (chunk_block c * BLOCK_SIZE) of
        Inl e \<Rightarrow> Inl e
      | Inr buf' \<Rightarrow> read_chunks file buf' cs)"

fun read_files :: "files \<Rightarrow> Buffer \<Rightarrow> file_map \<Rightarrow> js_error + Buffer list" where
  "read_files fs buf [] = Inr []"
| "read_files fs buf ((filename, blocks) # rest) =
     (case fs filename of
        None \<Rightarrow> Inl TypeError
      | Some file \<Rightarrow>
          (case read_chunks file buf blocks of
             Inl e \<Rightarrow> Inl e
           | Inr buf' \<Rightarrow>
               (case read_files fs buf' rest of
                  Inl e \<Rightarrow> Inl e
                | Inr callbacks \<Rightarrow> Inr (buf' # callbacks))))"

text \<open>
  \<^verbatim>\<open>loadImageBuffer\<close> fills a buffer of \<open>size\<close> zero bytes (\<^verbatim>\<open>Buffer.alloc(size)\<close>),
  file by file, and passes it to the callback after the reads of each file.
\<close>

definition loadImageBuffer :: "string \<Rightarrow> nat list \<Rightarrow> nat \<Rightarrow> files \<Rightarrow> js_error + Buffer list" where
  "loadImageBuffer folder blocks size' fs =
     read_files fs (replicate size' 0) (block_layout folder blocks size')"

subsection \<open>Allocation and layout\<close>

lemma allocate_blocks_length: "length (fst (allocate_blocks nextIndex n st)) = n"
proof (induction n arbitrary: st)
  case 0
  show ?case by simp
next
  case (Suc n)
  obtain b st' where a: "nextIndex st = (b, st')" by (cases "nextIndex st")
  obtain bs st'' where r: "allocate_blocks nextIndex n st' = (bs, st'')"
    by (cases "allocate_blocks nextIndex n st'")
  from Suc.IH [of st'] r have "length bs = n" by simp
  then show ?case by (simp add: a r)
qed

lemma saveImageBuffer_allocates:
  "saveImageBuffer folder buffer nextIndex st fs = (st', bs, result) \<Longrightarrow>
   (bs, st') = allocate_blocks nextIndex (length buffer div BLOCK_SIZE + 1) st
   \<and> result = write_files fs buffer (block_layout folder bs (length buffer)) bs"
  by (auto simp: saveImageBuffer_def Let_def split: prod.splits)

definition layout_chunks :: "file_map \<Rightarrow> chunk list" where
  "layout_chunks fileMap = concat (map snd fileMap)"

lemma layout_chunks_map_put_length:
  "length (layout_chunks (map_put fileMap f c)) = Suc (length (layout_chunks fileMap))"
  by (induction fileMap f c rule: map_put.induct) (simp_all add: layout_chunks_def)

lemma layout_chunks_map_put_set:
  "set (layout_chunks (map_put fileMap f c)) = insert c (set (layout_chunks fileMap))"
  by (induction fileMap f c rule: map_put.induct) (auto simp: layout_chunks_def)

lemma layout_chunks_foldl_length:
  "length (layout_chunks (foldl (\<lambda>m i. map_put m (fn i) (mk i)) fileMap is))
     = length (layout_chunks fileMap) + length is"
  by (induction "is" arbitrary: fileMap) (simp_all add: layout_chunks_map_put_length)

lemma layout_chunks_foldl_set:
  "set (layout_chunks (foldl (\<lambda>m i. map_put m (fn i) (mk i)) fileMap is))
     = set (layout_chunks fileMap) \<union> mk ` set is"
  by (induction "is" arbitrary: fileMap) (auto simp: layout_chunks_map_put_set)

lemma block_layout_foldl:
  "block_layout folder bs sz =
     foldl (\<lambda>m i. map_put m (folder @ ''/'' @ FILE_NAME (bs ! i div BLOCK_IN_FILE))
              \<lparr>chunk_id = i, chunk_block = bs ! i mod BLOCK_IN_FILE,
               chunk_size = (if i = length bs - 1 then sz mod BLOCK_SIZE else BLOCK_SIZE)\<rparr>)
       [] [0..<length bs]"
  by (simp add: block_layout_def Let_def)

lemma block_layout_length: "length (layout_chunks (block_layout folder bs sz)) = length bs"
  unfolding block_layout_foldl
  by (subst layout_chunks_foldl_length) (simp add: layout_chunks_def)

lemma block_layout_set:
  "set (layout_chunks (block_layout folder bs sz))
     = (\<lambda>i. \<lparr>chunk_id = i, chunk_block = bs ! i mod BLOCK_IN_FILE,
               chunk_size = (if i = length bs - 1 then sz mod BLOCK_SIZE else BLOCK_SIZE)\<rparr>)
       ` {0..<length bs}"
  unfolding block_layout_foldl
  by (subst layout_chunks_foldl_set) (simp add: layout_chunks_def)



subsection \<open>Writing and reading consecutive chunks\<close>



definition seq_chunk :: "nat \<Rightarrow> nat \<Rightarrow> nat \<Rightarrow> chunk" where
  "seq_chunk n L i =
     \<lparr>chunk_id = i, chunk_block = i,
      chunk_size = (if i = n - 1 then L mod BLOCK_SIZE else BLOCK_SIZE)\<rparr>"

definition covered :: "nat \<Rightarrow> nat \<Rightarrow> nat" where
  "covered L k = min (k * BLOCK_SIZE) L"

lemma BLOCK_SIZE_pos: "0 < BLOCK_SIZE"
  by (simp add: BLOCK_SIZE_def)


lemma covered_step:
  assumes "k < Suc (L div BLOCK_SIZE)"
  shows "k * BLOCK_SIZE + chunk_size (seq_chunk (Suc (L div BLOCK_SIZE)) L k) = covered L (Suc k)"
proof (cases "k = L div BLOCK_SIZE")
  case True
  have "L < Suc (L div BLOCK_SIZE) * BLOCK_SIZE"
    using dividend_less_div_times [OF BLOCK_SIZE_pos, of L] by (simp add: add.commute)
  then have "covered L (Suc k) = L" by (simp add: covered_def True)
  then show ?thesis by (simp add: seq_chunk_def True)
next
  case False
  with assms have "Suc k \<le> L div BLOCK_SIZE" by simp
  then have "Suc k * BLOCK_SIZE \<le> (L div BLOCK_SIZE) * BLOCK_SIZE"
    by (rule mult_le_mono1)
  also have "\<dots> \<le> L" by simp
  finally have "covered L (Suc k) = Suc k * BLOCK_SIZE" by (simp add: covered_def)
  then show ?thesis using False by (simp add: seq_chunk_def)
qed


lemma covered_le: "covered L k \<le> L"
  by (simp add: covered_def)



section \<open>Data model of the local engine\<close>

text \<open>
  The engine of \<^verbatim>\<open>src/common/localEngine.ts\<close> keeps the whole catalogue in one
  \<^verbatim>\<open>SaveModel\<close> object. JavaScript numbers that count blocks or bytes are natural
  numbers here, ids are integers, and a field that may be \<^verbatim>\<open>undefined\<close> is an option
  (\<open>None\<close> for \<^verbatim>\<open>undefined\<close>). Numbers stay far below \<open>2 ^ 53\<close>, where the
  doubles of JavaScript are exact.
\<close>

text \<open>
  Modelled from the spec: the types \<^verbatim>\<open>Illustration\<close> and \<^verbatim>\<open>ImageSpecification\<close>
  are declared in \<^verbatim>\<open>./engine\<close>, which is not among the sources. The spec: an entry
  has an integer id, a tag set and an ordered list of sub-items; a sub-item has an
  integer id and its own tag set; the variants are origin, exhibition and thumbnail.
  The fields below are the ones the engine reads and writes.
\<close>

datatype ImageSpecification = Thumbnail | Exhibition | Origin

record image =
  image_id :: "int option"
  image_subTags :: "string list"

record illustration =
  illust_id :: "int option"
  illust_tags :: "string list"
  illust_images :: "image list"

text \<open>One record of the block table: \<^verbatim>\<open>{blocks: number[], size: number}\<close>.\<close>

record block_info =
  info_size :: nat
  info_blocks :: "nat list option"

type_synonym block_table = "int \<rightharpoonup> (ImageSpecification \<rightharpoonup> block_info)"

record SaveModel =
  nextIllustrationId :: int
  nextImageId :: int
  nextBlockIndex :: nat
  unusedBlocks :: "nat list"
  tags :: "string list"
  illustrations :: "illustration list"
  blocks :: block_table
  config :: "string \<rightharpoonup> string"



text \<open>
  \<^verbatim>\<open>if(Arrays.isNotEmpty(this.unusedBlocks)) return this.unusedBlocks.splice(0, 1)[0]\<close>
  \<^verbatim>\<open>return this.nextBlockIndex++\<close>
\<close>

definition stepToNextBlockIndex :: "SaveModel \<Rightarrow> nat \<times> SaveModel" where
  "stepToNextBlockIndex m =
     (case unusedBlocks m of
        b # rest \<Rightarrow> (b, m\<lparr>unusedBlocks := rest\<rparr>)
      | [] \<Rightarrow> (nextBlockIndex m, m\<lparr>nextBlockIndex := nextBlockIndex m + 1\<rparr>))"

section \<open>The allocator\<close>

text \<open>
  C7. When the free list is not empty, the allocator hands out its first element (the
  list is consumed from the front, so an index appended earlier leaves earlier), removes
  exactly that element and leaves the counter alone; when the free list is empty it
  hands out the counter and advances it by one, the free list staying empty.
\<close>

theorem stepToNextBlockIndex_free_list_first:
  "stepToNextBlockIndex (m\<lparr>unusedBlocks := b # rest\<rparr>) = (b, m\<lparr>unusedBlocks := rest\<rparr>)
   \<and> nextBlockIndex (snd (stepToNextBlockIndex (m\<lparr>unusedBlocks := b # rest\<rparr>))) = nextBlockIndex m
   \<and> stepToNextBlockIndex (m\<lparr>unusedBlocks := []\<rparr>)
       = (nextBlockIndex m, m\<lparr>unusedBlocks := [], nextBlockIndex := nextBlockIndex m + 1\<rparr>)"
  by (simp add: stepToNextBlockIndex_def)

section \<open>Storage with the engine's allocator\<close>

lemma allocate_blocks_fresh:
  "unusedBlocks m = [] \<Longrightarrow>
   allocate_blocks stepToNextBlockIndex n m
     = ([nextBlockIndex m..<nextBlockIndex m + n], m\<lparr>nextBlockIndex := nextBlockIndex m + n\<rparr>)"
proof (induction n arbitrary: m)
  case 0
  show ?case by simp
next
  case (Suc n)
  let ?k = "nextBlockIndex m"
  let ?m' = "m\<lparr>nextBlockIndex := Suc ?k\<rparr>"
  have s: "stepToNextBlockIndex m = (?k, ?m')"
    using Suc.prems by (simp add: stepToNextBlockIndex_def)
  have "unusedBlocks ?m' = []" using Suc.prems by simp
  then have "allocate_blocks stepToNextBlockIndex n ?m'
      = ([nextBlockIndex ?m'..<nextBlockIndex ?m' + n], ?m'\<lparr>nextBlockIndex := nextBlockIndex ?m' + n\<rparr>)"
    by (rule Suc.IH)
  then have r: "allocate_blocks stepToNextBlockIndex n ?m'
      = ([Suc ?k..<Suc (?k + n)], m\<lparr>nextBlockIndex := Suc (?k + n)\<rparr>)"
    by simp
  have "[?k..<?k + Suc n] = ?k # [Suc ?k..<Suc (?k + n)]"
    by (simp add: upt_conv_Cons del: upt_Suc)
  then show ?case by (simp add: s r del: upt_Suc)
qed



lemma saveImageBuffer_unfold:
  assumes "allocate_blocks nextIndex (Suc (length buffer div BLOCK_SIZE)) st = (bs, st')"
  shows "saveImageBuffer folder buffer nextIndex st fs
     = (st', bs, write_files fs buffer (block_layout folder bs (length buffer)) bs)"
  using assms by (simp add: saveImageBuffer_def del: allocate_blocks.simps)


lemma block_layout_sizes:
  "(\<lambda>c. (chunk_id c, chunk_size c)) ` set (layout_chunks (block_layout folder bs sz))
     = (\<lambda>i. (i, if i = length bs - 1 then sz mod BLOCK_SIZE else BLOCK_SIZE)) ` {0..<length bs}"
  by (simp add: block_layout_set image_image)

lemma chunk_in_range:
  assumes "i < Suc (L div BLOCK_SIZE)"
  shows "i * BLOCK_SIZE + (if i = L div BLOCK_SIZE then L mod BLOCK_SIZE else BLOCK_SIZE) \<le> L"
  using covered_step [OF assms] covered_le [of L "Suc i"] by (simp add: seq_chunk_def)



text \<open>
  C2, as the claim states it, fails for a payload whose length is a positive multiple of
  the block size: the claim counts \<open>ceil(L / B)\<close> chunks, the code allocates
  \<open>floor(L / B) + 1\<close> blocks. A payload of 65536 bytes gets the two blocks 0 and 1, the
  second chunk being empty, where \<open>ceil(65536 / 65536) = 1\<close>.
\<close>

theorem saveImageBuffer_full_block:
  "fst (snd (saveImageBuffer ''db'' (replicate 65536 0) stepToNextBlockIndex
       \<lparr>nextIllustrationId = 1, nextImageId = 1, nextBlockIndex = 0, unusedBlocks = [],
        tags = [], illustrations = [], blocks = Map.empty, config = Map.empty\<rparr> Map.empty))
     = [0, 1]
   \<and> block_layout ''db'' [0, 1] 65536
     = [(''db/block-a.dat'',
         [\<lparr>chunk_id = 0, chunk_block = 0, chunk_size = 65536\<rparr>,
          \<lparr>chunk_id = 1, chunk_block = 1, chunk_size = 0\<rparr>])]
   \<and> (65536 + BLOCK_SIZE - 1) div BLOCK_SIZE = 1"
proof -
  let ?m = "\<lparr>nextIllustrationId = 1, nextImageId = 1, nextBlockIndex = 0, unusedBlocks = [],
        tags = [], illustrations = [], blocks = Map.empty, config = Map.empty\<rparr>"
  have d: "length (replicate 65536 (0::byte)) div BLOCK_SIZE = Suc 0"
    by (simp add: BLOCK_SIZE_def)
  have a: "allocate_blocks stepToNextBlockIndex (Suc (length (replicate 65536 (0::byte)) div BLOCK_SIZE)) ?m
      = ([0, 1], ?m\<lparr>nextBlockIndex := 2\<rparr>)"
    unfolding d by (simp add: stepToNextBlockIndex_def)
  have b: "fst (snd (saveImageBuffer ''db'' (replicate 65536 0) stepToNextBlockIndex ?m Map.empty)) = [0, 1]"
    by (simp only: saveImageBuffer_unfold [OF a] fst_conv snd_conv)
  have "[0..<length [0, 1::nat]] = [0, Suc 0]" by (simp add: upt_conv_Cons)
  then have l: "block_layout ''db'' [0, 1] 65536
     = [(''db/block-a.dat'',
         [\<lparr>chunk_id = 0, chunk_block = 0, chunk_size = 65536\<rparr>,
          \<lparr>chunk_id = 1, chunk_block = 1, chunk_size = 0\<rparr>])]"
    by (simp add: block_layout_def BLOCK_SIZE_def BLOCK_IN_FILE_def FILE_NAME_def
        toString16.simps hex_digit_def Let_def)
  have c: "(65536 + BLOCK_SIZE - 1) div BLOCK_SIZE = 1" by (simp add: BLOCK_SIZE_def)
  from b l c show ?thesis by (intro conjI)
qed

text \<open>
  C2, amended. A payload of \<open>L\<close> bytes obtains exactly \<open>L div B + 1\<close> block indices
  from the allocator, by that many calls, and is laid out in as many chunks: chunk \<open>i\<close>
  holds \<open>B\<close> bytes of the payload from \<open>i * B\<close> on, except the last one, chunk
  \<open>L div B\<close>, which holds the \<open>L mod B\<close> remaining bytes (none when \<open>B\<close> divides
  \<open>L\<close>). A payload of 100000 bytes is laid out in 2 chunks of 65536 and 34464 bytes.
\<close>

theorem saveImageBuffer_chunks:
  assumes "saveImageBuffer folder buffer nextIndex st fs = (st', bs, result)"
  shows "(bs, st') = allocate_blocks nextIndex (length buffer div BLOCK_SIZE + 1) st
     \<and> length bs = length buffer div BLOCK_SIZE + 1
     \<and> result = write_files fs buffer (block_layout folder bs (length buffer)) bs
     \<and> length (layout_chunks (block_layout folder bs (length buffer))) = length bs
     \<and> (\<lambda>c. (chunk_id c, chunk_size c)) ` set (layout_chunks (block_layout folder bs (length buffer)))
         = (\<lambda>i. (i, if i = length buffer div BLOCK_SIZE then length buffer mod BLOCK_SIZE
                      else BLOCK_SIZE)) ` {0..<length buffer div BLOCK_SIZE + 1}
     \<and> (\<forall>c \<in> set (layout_chunks (block_layout folder bs (length buffer))).
           length (take (chunk_size c) (drop (chunk_id c * BLOCK_SIZE) buffer)) = chunk_size c)
     \<and> (length buffer = 100000 \<longrightarrow>
           length bs = 2
           \<and> (\<lambda>c. (chunk_id c, chunk_size c)) ` set (layout_chunks (block_layout folder bs (length buffer)))
               = {(0, 65536), (1, 34464)})"
proof -
  let ?L = "length buffer"
  let ?n = "?L div BLOCK_SIZE + 1"
  let ?cs = "layout_chunks (block_layout folder bs ?L)"
  let ?pairs = "(\<lambda>c. (chunk_id c, chunk_size c)) ` set ?cs"
  have alloc: "(bs, st') = allocate_blocks nextIndex ?n st"
    and res: "result = write_files fs buffer (block_layout folder bs ?L) bs"
    using saveImageBuffer_allocates [OF assms] by simp_all
  have len: "length bs = ?n"
    using allocate_blocks_length [of nextIndex ?n st] alloc [symmetric] by simp
  have cnt: "length ?cs = length bs" by (rule block_layout_length)
  have pairs: "?pairs = (\<lambda>i. (i, if i = ?L div BLOCK_SIZE then ?L mod BLOCK_SIZE else BLOCK_SIZE)) ` {0..<?n}"
    by (simp add: block_layout_sizes len)
  have fits: "length (take (chunk_size c) (drop (chunk_id c * BLOCK_SIZE) buffer)) = chunk_size c"
    if "c \<in> set ?cs" for c
  proof -
    from that have "(chunk_id c, chunk_size c) \<in> ?pairs" by blast
    then obtain i where i: "i < ?n" "chunk_id c = i"
      "chunk_size c = (if i = ?L div BLOCK_SIZE then ?L mod BLOCK_SIZE else BLOCK_SIZE)"
      unfolding pairs by auto
    then have "i * BLOCK_SIZE + chunk_size c \<le> ?L"
      using chunk_in_range [of i ?L] by simp
    then show ?thesis using i by simp
  qed
  have example: "length bs = 2 \<and> ?pairs = {(0, 65536), (1, 34464)}" if "?L = 100000"
  proof -
    have n2: "?L div BLOCK_SIZE = 1" "?L mod BLOCK_SIZE = 34464"
      using that by (simp_all add: BLOCK_SIZE_def)
    from pairs have "?pairs = (\<lambda>i. (i, if i = (1::nat) then 34464 else BLOCK_SIZE)) ` {0..<1 + 1}"
      by (simp only: n2)
    also have "{0..<1 + 1} = {0, 1::nat}" by auto
    finally have "?pairs = {(0, 65536), (1, 34464)}" by (simp add: BLOCK_SIZE_def)
    moreover have "length bs = 2" using len n2 by simp
    ultimately show ?thesis by simp
  qed
  from alloc len res cnt pairs fits example show ?thesis by blast
qed

theorem saveImageBuffer_chunks_witness:
  "length (fst (snd (saveImageBuffer ''db'' (replicate 100000 0) stepToNextBlockIndex
       \<lparr>nextIllustrationId = 1, nextImageId = 1, nextBlockIndex = 0, unusedBlocks = [],
        tags = [], illustrations = [], blocks = Map.empty, config = Map.empty\<rparr> Map.empty))) = 2
   \<and> length (layout_chunks (block_layout ''db''
          (fst (snd (saveImageBuffer ''db'' (replicate 100000 0) stepToNextBlockIndex
             \<lparr>nextIllustrationId = 1, nextImageId = 1, nextBlockIndex = 0, unusedBlocks = [],
              tags = [], illustrations = [], blocks = Map.empty, config = Map.empty\<rparr> Map.empty)))
          100000)) = 2
   \<and> (\<lambda>c. (chunk_id c, chunk_size c)) `
        set (layout_chunks (block_layout ''db''
          (fst (snd (saveImageBuffer ''db'' (replicate 100000 0) stepToNextBlockIndex
             \<lparr>nextIllustrationId = 1, nextImageId = 1, nextBlockIndex = 0, unusedBlocks = [],
              tags = [], illustrations = [], blocks = Map.empty, config = Map.empty\<rparr> Map.empty)))
          100000))
       = {(0, 65536), (1, 34464)}"
proof -
  let ?X = "saveImageBuffer ''db'' (replicate 100000 (0::byte)) stepToNextBlockIndex
       \<lparr>nextIllustrationId = 1, nextImageId = 1, nextBlockIndex = 0, unusedBlocks = [],
        tags = [], illustrations = [], blocks = Map.empty, config = Map.empty\<rparr> Map.empty"
  have h: "?X = (fst ?X, fst (snd ?X), snd (snd ?X))" by simp
  have l: "length (replicate 100000 (0::byte)) = 100000" by simp
  note facts = saveImageBuffer_chunks [OF h]
  note count = facts [THEN conjunct2, THEN conjunct2, THEN conjunct2, THEN conjunct1]
  note example = facts [THEN conjunct2, THEN conjunct2, THEN conjunct2, THEN conjunct2,
      THEN conjunct2, THEN conjunct2, THEN mp, OF l]
  from example have two: "length (fst (snd ?X)) = 2" by (rule conjunct1)
  from count two
  have "length (layout_chunks (block_layout ''db'' (fst (snd ?X)) (length (replicate 100000 (0::byte)))))
      = 2"
    by (rule trans)
  with example
  have "length (fst (snd ?X)) = 2
      \<and> length (layout_chunks (block_layout ''db'' (fst (snd ?X)) (length (replicate 100000 (0::byte)))))
          = 2
      \<and> (\<lambda>c. (chunk_id c, chunk_size c)) `
           set (layout_chunks (block_layout ''db'' (fst (snd ?X)) (length (replicate 100000 (0::byte)))))
          = {(0, 65536), (1, 34464)}"
    by (intro conjI) (erule conjunct1, assumption, erule conjunct2)
  then show ?thesis by (simp only: l)
qed

section \<open>The engine\<close>

subsection \<open>Helpers of util/collection\<close>

text \<open>
  Modelled from the spec: \<^verbatim>\<open>util/collection\<close> is not among the sources. \<^verbatim>\<open>Arrays.indexOf\<close>
  is the index of the first element that satisfies the predicate, or -1;
  \<^verbatim>\<open>Arrays.removeAt\<close> deletes the element at an index; \<^verbatim>\<open>Sets.put\<close> appends an
  element that the array does not hold yet (the spec: the tag set has no duplicates);
  \<^verbatim>\<open>Maps.remove\<close> deletes a key and tells whether it was there.
\<close>

fun Arrays_indexOf :: "'a list \<Rightarrow> ('a \<Rightarrow> bool) \<Rightarrow> int" where
  "Arrays_indexOf [] p = - 1"
| "Arrays_indexOf (x # xs) p =
     (if p x then 0 else (let i = Arrays_indexOf xs p in if i < 0 then - 1 else i + 1))"

definition Arrays_removeAt :: "'a list \<Rightarrow> nat \<Rightarrow> 'a list" where
  "Arrays_removeAt xs i = take i xs @ drop (i + 1) xs"


definition Maps_remove :: "('k \<rightharpoonup> 'v) \<Rightarrow> 'k \<Rightarrow> bool \<times> ('k \<rightharpoonup> 'v)" where
  "Maps_remove m k = (m k \<noteq> None, m(k := None))"

subsection \<open>BufferCache\<close>

type_synonym 'T BufferCache = "ImageSpecification \<Rightarrow> int \<rightharpoonup> 'T"

definition BufferCache_new :: "'T BufferCache" where
  "BufferCache_new = (\<lambda>specification. Map.empty)"

definition BufferCache_get :: "'T BufferCache \<Rightarrow> ImageSpecification \<Rightarrow> int \<Rightarrow> 'T option" where
  "BufferCache_get c specification i = c specification i"

definition BufferCache_set :: "'T BufferCache \<Rightarrow> ImageSpecification \<Rightarrow> int \<Rightarrow> 'T \<Rightarrow> 'T BufferCache" where
  "BufferCache_set c specification i obj = c(specification := (c specification)(i \<mapsto> obj))"

definition BufferCache_remove :: "'T BufferCache \<Rightarrow> int \<Rightarrow> bool \<times> 'T BufferCache" where
  "BufferCache_remove c i =
     (let (r1, thumbnail) = Maps_remove (c Thumbnail) i;
          (r2, exhibition) = Maps_remove (c Exhibition) i;
          (r3, origin) = Maps_remove (c Origin) i
      in (r1 \<or> r2 \<or> r3, c(Thumbnail := thumbnail, Exhibition := exhibition, Origin := origin)))"

subsection \<open>LocalDataEngine\<close>

text \<open>
  The fields of the class. A method takes the engine and returns it with its result;
  methods that touch files take the files as well.
\<close>

record LocalDataEngine =
  storageFolder :: string
  key :: string
  memory :: SaveModel
  imageURLCache :: "string BufferCache"








text \<open>
  \<^verbatim>\<open>deleteIllustration\<close> takes entries or ids
  (\<^verbatim>\<open>typeof ii === "number" ? ii : ii.id\<close>). For an entry that is found it removes the
  entry, calls \<^verbatim>\<open>this.imageURLCache.remove(id)\<close> and sets
  \<^verbatim>\<open>this.memory.blocks[id] = undefined\<close>, \<open>id\<close> being the id of the entry; an
  undefined id names no key of the cache or the block table.
\<close>

datatype illust_ref = ById int | ByIllustration illustration

definition ref_id :: "illust_ref \<Rightarrow> int option" where
  "ref_id ii = (case ii of ById n \<Rightarrow> Some n | ByIllustration illust \<Rightarrow> illust_id illust)"

definition delete_one :: "LocalDataEngine \<Rightarrow> illust_ref \<Rightarrow> bool \<times> LocalDataEngine" where
  "delete_one e ii =
     (let i = ref_id ii;
          index = Arrays_indexOf (illustrations (memory e)) (\<lambda>t. illust_id t = i)
      in if index \<ge> 0
         then (True,
               e\<lparr>memory := (memory e)
                    \<lparr>illustrations := Arrays_removeAt (illustrations (memory e)) (nat index),
                     blocks := (case i of None \<Rightarrow> blocks (memory e)
                                | Some n \<Rightarrow> (blocks (memory e))(n := None))\<rparr>,
                 imageURLCache := (case i of None \<Rightarrow> imageURLCache e
                                   | Some n \<Rightarrow> snd (BufferCache_remove (imageURLCache e) n))\<rparr>)
         else (False, e))"

fun delete_all :: "LocalDataEngine \<Rightarrow> illust_ref list \<Rightarrow> nat \<Rightarrow> nat \<times> LocalDataEngine" where
  "delete_all e [] delNumber = (delNumber, e)"
| "delete_all e (ii # rest) delNumber =
     (let (found, e') = delete_one e ii
      in delete_all e' rest (if found then delNumber + 1 else delNumber))"

definition deleteIllustration :: "LocalDataEngine \<Rightarrow> illust_ref list \<Rightarrow> nat \<times> LocalDataEngine" where
  "deleteIllustration e refs = delete_all e refs 0"

text \<open>
  Modelled from the spec: \<^verbatim>\<open>decryptBuffer\<close> is imported from \<^verbatim>\<open>util/encryption\<close> but
  is not in the source of that module. The spec: payload decoding applies only the
  repeating-keystream XOR to the raw bytes, with no envelope and no rotation.
\<close>

definition decryptBuffer :: "string \<Rightarrow> Buffer \<Rightarrow> Buffer" where
  "decryptBuffer k buf = xor_buffer buf (turnToBinary (turnToPasswordSequence k))"

text \<open>
  \<^verbatim>\<open>loadImageURL\<close>, called with a callback; the values passed to the callback are
  returned as a list, \<open>None\<close> for \<^verbatim>\<open>null\<close>. The constant \<^verbatim>\<open>PREFIX\<close> of
  \<^verbatim>\<open>util/nativeImage\<close> and the base64 encoding of the runtime are parameters. Reading
  \<^verbatim>\<open>{blocks, size}\<close> out of a variant record that is missing throws a
  \<^verbatim>\<open>TypeError\<close>.
\<close>

fun deliver_buffers ::
  "string \<Rightarrow> (Buffer \<Rightarrow> string) \<Rightarrow> LocalDataEngine \<Rightarrow> ImageSpecification \<Rightarrow> int \<Rightarrow> Buffer list
    \<Rightarrow> string option list \<times> LocalDataEngine" where
  "deliver_buffers PREFIX base64 e spec imageId [] = ([], e)"
| "deliver_buffers PREFIX base64 e spec imageId (buf # rest) =
     (let dataUrl = PREFIX @ base64 (decryptBuffer (key e) buf);
          e' = e\<lparr>imageURLCache := BufferCache_set (imageURLCache e) spec imageId dataUrl\<rparr>;
          (delivered, e'') = deliver_buffers PREFIX base64 e' spec imageId rest
      in (Some dataUrl # delivered, e''))"

definition loadImageURL ::
  "string \<Rightarrow> (Buffer \<Rightarrow> string) \<Rightarrow> LocalDataEngine \<Rightarrow> files \<Rightarrow> int \<Rightarrow> ImageSpecification option
    \<Rightarrow> js_error + string option list \<times> LocalDataEngine" where
  "loadImageURL PREFIX base64 e fs imageId specification =
     (let spec = (if specification = Some Origin then Origin else Exhibition);
          cache = BufferCache_get (imageURLCache e) spec imageId
      in if cache \<noteq> None then Inr ([cache], e)
         else (case blocks (memory e) imageId of
                 None \<Rightarrow> Inr ([None], e)
               | Some table \<Rightarrow>
                   (case table spec of
                      None \<Rightarrow> Inl TypeError
                    | Some info \<Rightarrow>
                        (case info_blocks info of
                           None \<Rightarrow> Inr ([None], e)
                         | Some bs \<Rightarrow>
                             (case loadImageBuffer (storageFolder e) bs (info_size info) fs of
                                Inl err \<Rightarrow> Inl err
                              | Inr bufs \<Rightarrow> Inr (deliver_buffers PREFIX base64 e spec imageId bufs))))))"

subsection \<open>load\<close>

text \<open>
  The document that \<^verbatim>\<open>save\<close> writes and \<^verbatim>\<open>load\<close> reads. \<^verbatim>\<open>JSON.parse\<close> is a
  parameter: it throws, returns null, or returns a value, and a value other than null is
  taken to be a document of this shape (\<^verbatim>\<open>config\<close> may be missing).
\<close>

record next_index =
  doc_nextIllustrationId :: int
  doc_nextImageId :: int
  doc_nextBlockIndex :: nat

record document =
  doc_version :: string
  doc_nextIndex :: next_index
  doc_illustrations :: "illustration list"
  doc_blocks :: block_table
  doc_unusedBlocks :: "nat list"
  doc_config :: "(string \<rightharpoonup> string) option"




subsection \<open>Ids that are 0\<close>












subsection \<open>An engine with one entry\<close>

text \<open>
  The first entry of a store, with its two sub-items. The origin payload of sub-item 1
  has been written to the blocks 5 and 6; its exhibition variant has not been recorded,
  as between the two steps of \<^verbatim>\<open>saveImageURL\<close>. The cache holds the exhibition
  variant of sub-item 2.
\<close>

definition example_engine :: LocalDataEngine where
  "example_engine =
     \<lparr>storageFolder = ''db'', key = ''b'',
      memory =
        \<lparr>nextIllustrationId = 2, nextImageId = 3, nextBlockIndex = 7, unusedBlocks = [],
         tags = [],
         illustrations =
           [\<lparr>illust_id = Some 1, illust_tags = [],
             illust_images = [\<lparr>image_id = Some 1, image_subTags = []\<rparr>,
                              \<lparr>image_id = Some 2, image_subTags = []\<rparr>]\<rparr>],
         blocks = [1 \<mapsto> [Origin \<mapsto> \<lparr>info_size = 100000, info_blocks = Some [5, 6]\<rparr>]],
         config = Map.empty\<rparr>,
      imageURLCache = BufferCache_set BufferCache_new Exhibition 2 ''cached''\<rparr>"

lemmas delete_eval = deleteIllustration_def delete_one_def ref_id_def Arrays_removeAt_def
  BufferCache_remove_def BufferCache_set_def BufferCache_get_def BufferCache_new_def
  Maps_remove_def Let_def

lemma delete_example:
  "deleteIllustration example_engine [ById 1]
     = (1, example_engine\<lparr>memory := (memory example_engine)\<lparr>illustrations := [], blocks := Map.empty\<rparr>\<rparr>)"
  by (simp add: delete_eval example_engine_def fun_eq_iff)

text \<open>
  C4 does not hold of the code. Deleting the entry drops its record from the block table
  but puts none of its block indices 5 and 6 on the free list, which stays empty; the
  next payload of two blocks takes the indices 7 and 8 from the counter.
\<close>

theorem deleteIllustration_leaks_blocks:
  "fst (deleteIllustration example_engine [ById 1]) = 1
   \<and> unusedBlocks (memory (snd (deleteIllustration example_engine [ById 1]))) = []
   \<and> fst (snd (saveImageBuffer ''db'' (replicate 100000 0) stepToNextBlockIndex
         (memory (snd (deleteIllustration example_engine [ById 1]))) fs)) = [7, 8]"
proof -
  let ?m = "memory (snd (deleteIllustration example_engine [ById 1]))"
  have u: "unusedBlocks ?m = []" and n: "nextBlockIndex ?m = 7"
    by (simp_all add: delete_example) (simp_all add: example_engine_def)
  have d: "length (replicate 100000 (0::byte)) div BLOCK_SIZE = 1"
    by (simp add: BLOCK_SIZE_def)
  have "allocate_blocks stepToNextBlockIndex (Suc (length (replicate 100000 (0::byte)) div BLOCK_SIZE)) ?m
      = ([nextBlockIndex ?m..<nextBlockIndex ?m + Suc (length (replicate 100000 (0::byte)) div BLOCK_SIZE)],
         ?m\<lparr>nextBlockIndex := nextBlockIndex ?m + Suc (length (replicate 100000 (0::byte)) div BLOCK_SIZE)\<rparr>)"
    using u by (rule allocate_blocks_fresh)
  then have "fst (snd (saveImageBuffer ''db'' (replicate 100000 0) stepToNextBlockIndex ?m fs))
      = [nextBlockIndex ?m..<nextBlockIndex ?m + Suc (length (replicate 100000 (0::byte)) div BLOCK_SIZE)]"
    by (simp only: saveImageBuffer_unfold fst_conv snd_conv)
  also have "\<dots> = [7, 8]"
    unfolding n d by (simp add: upt_conv_Cons)
  finally have s: "fst (snd (saveImageBuffer ''db'' (replicate 100000 0) stepToNextBlockIndex ?m fs)) = [7, 8]" .
  have c: "fst (deleteIllustration example_engine [ById 1]) = 1" by (simp add: delete_example)
  from c u s show ?thesis by (intro conjI)
qed

text \<open>
  C8 does not hold of the code. \<^verbatim>\<open>deleteIllustration\<close> passes the id of the entry to
  \<^verbatim>\<open>imageURLCache.remove\<close>, where the cache is keyed by the ids of sub-items. After
  entry 1 is deleted, the cached payload of its sub-item 2 is still there, and
  \<^verbatim>\<open>loadImageURL\<close> delivers it.
\<close>

theorem deleteIllustration_keeps_cache:
  "BufferCache_get (imageURLCache (snd (deleteIllustration example_engine [ById 1]))) Exhibition 2
     = Some ''cached''
   \<and> loadImageURL PREFIX base64 (snd (deleteIllustration example_engine [ById 1])) fs 2 None
     = Inr ([Some ''cached''], snd (deleteIllustration example_engine [ById 1]))"
proof -
  let ?e = "snd (deleteIllustration example_engine [ById 1])"
  have g: "BufferCache_get (imageURLCache ?e) Exhibition 2 = Some ''cached''"
    by (simp add: delete_example) (simp add: example_engine_def BufferCache_get_def BufferCache_set_def)
  then have "loadImageURL PREFIX base64 ?e fs 2 None = Inr ([Some ''cached''], ?e)"
    by (simp add: loadImageURL_def)
  with g show ?thesis by (intro conjI)
qed

text \<open>
  C6 does not hold of the code. Sub-item 1 has a record for the origin variant only.
  Asking for its exhibition variant, by name or by default, reads the fields of a record
  that is not there: a \<^verbatim>\<open>TypeError\<close> is thrown and the callback is never called. A
  sub-item with no record at all does get the not-found result.
\<close>

theorem loadImageURL_other_variant_throws:
  "loadImageURL PREFIX base64 example_engine fs 1 (Some Exhibition) = Inl TypeError
   \<and> loadImageURL PREFIX base64 example_engine fs 1 None = Inl TypeError
   \<and> loadImageURL PREFIX base64 example_engine fs 3 (Some Exhibition) = Inr ([None], example_engine)"
  by (simp add: loadImageURL_def example_engine_def BufferCache_get_def BufferCache_set_def
      BufferCache_new_def)



end
